theory Spec2Isabelle
  imports Main "HOL-Library.AList" "HOL-Library.Monad_Syntax"
begin

section \<open>Data model of \<^verbatim>\<open>fsm.h\<close>\<close>

text \<open>
  State and event identities are the strings \<^verbatim>\<open>typeid(T).name()\<close>. The engine
  creates one \<^verbatim>\<open>State\<close> object per registered identity, stores its identity in
  the object and never frees it before the machine itself is destroyed, so a
  \<^verbatim>\<open>State*\<close> is modelled by the identity under which the object is registered
  (\<^verbatim>\<open>p->name\<close> is that identity) and the null pointer by \<open>None\<close>.

  A \<^verbatim>\<open>std::any\<close> payload is the name of the concrete type it holds together
  with the value; values are encoded as natural numbers. The map \<^verbatim>\<open>evts\<close>, whose
  size the code tests, is an association list with one entry per key
  (\<open>AList.update\<close> overwrites, \<open>AList.delete\<close> erases); the maps \<^verbatim>\<open>states\<close> and
  \<^verbatim>\<open>events\<close>, which are only looked up and assigned, are partial functions.
\<close>

type_synonym ident = string

datatype any = Any (any_type: ident) (any_val: nat)

text \<open>
  The object behind \<^verbatim>\<open>T* ta\<close>: \<open>inst_id\<close> is the serial number of the
  allocation that created it (two objects are the same reference iff they have
  the same serial number), \<open>inst_args\<close> the constructor arguments.
\<close>

record inst =
  inst_id :: nat
  inst_args :: "nat list"

text \<open>
  \<^verbatim>\<open>class State\<close> with the two members of \<^verbatim>\<open>StateImpl\<close>. The tuple
  \<^verbatim>\<open>param\<close> has one component per constructor parameter of the machine, so
  its length is \<^verbatim>\<open>sizeof...(TParams)\<close>. The recursive mutex is left out: the
  model is sequential, and a recursive mutex never blocks the thread owning it.
\<close>

record State =
  reuse :: bool
  nextstate :: ident
  whitelist :: "ident set"
  blacklist :: "ident set"
  deferlist :: "ident set"
  evts :: "(ident \<times> any) list"
  ta :: "inst option"
  param :: "nat list"

text \<open>
  \<^verbatim>\<open>class FSM\<close>. \<open>heap_next\<close> is not a member of the class: it is the
  allocator, the serial number that the next \<^verbatim>\<open>new T(...)\<close> receives.
\<close>

record FSM =
  eof :: bool
  waitsize :: int
  curstate :: "ident option"
  waitstates :: "ident list"
  events :: "ident \<rightharpoonup> ident"
  states :: "ident \<rightharpoonup> State"
  heap_next :: nat

text \<open>
  The application's state classes are template arguments of the engine. Their
  code runs inside the engine and may call back into it (a constructor that
  calls \<^verbatim>\<open>fsm.next_state(this, ...)\<close>), so each is an arbitrary transformer
  of the machine that may fail; \<open>None\<close> stands for undefined behaviour (a null
  pointer dereference). \<open>on_fsm_event app T = None\<close> says that class \<open>T\<close> has no
  member \<^verbatim>\<open>on_fsm_event\<close> (\<^verbatim>\<open>has_member_evt<T>\<close> is false). Destructors of
  state classes are taken not to call the engine.
\<close>

record app =
  construct :: "ident \<Rightarrow> nat list \<Rightarrow> FSM \<Rightarrow> FSM option"
  on_fsm_event :: "ident \<Rightarrow> (inst \<Rightarrow> FSM \<Rightarrow> FSM option) option"

section \<open>Operations of one state slot\<close>

definition has_event :: "State \<Rightarrow> bool" where
  "has_event s = (evts s \<noteq> [])"

text \<open>
  \<^verbatim>\<open>get_event<T>(evt)\<close>: the result \<open>Some v\<close> is \<^verbatim>\<open>true\<close> with \<open>v\<close> written to
  \<^verbatim>\<open>evt\<close>; \<open>None\<close> is \<^verbatim>\<open>false\<close>. \<^verbatim>\<open>std::any_cast<T>\<close> throws when the stored
  type is not \<open>T\<close>, before \<^verbatim>\<open>erase\<close> runs.
\<close>

definition get_event :: "ident \<Rightarrow> State \<Rightarrow> nat option \<times> State" where
  "get_event T s =
     (case map_of (evts s) T of
        None \<Rightarrow> (None, s)
      | Some a \<Rightarrow>
          if any_type a = T then (Some (any_val a), s\<lparr>evts := AList.delete T (evts s)\<rparr>)
          else (None, s))"

definition interrupt :: "State \<Rightarrow> ident \<Rightarrow> int" where
  "interrupt s evtname =
     (if whitelist s \<noteq> {} \<and> evtname \<notin> whitelist s then 0
      else if evtname \<in> blacklist s then 0
      else if evtname \<in> deferlist s then - 1
      else 1)"

definition add_event :: "ident \<Rightarrow> nat \<Rightarrow> State \<Rightarrow> State" where
  "add_event E v s = s\<lparr>evts := AList.update E (Any E v) (evts s)\<rparr>"

definition add_white_event :: "ident list \<Rightarrow> State \<Rightarrow> State" where
  "add_white_event En s = s\<lparr>whitelist := whitelist s \<union> set En\<rparr>"

definition add_black_event :: "ident list \<Rightarrow> State \<Rightarrow> State" where
  "add_black_event En s = s\<lparr>blacklist := blacklist s \<union> set En\<rparr>"

definition add_defer_event :: "ident list \<Rightarrow> State \<Rightarrow> State" where
  "add_defer_event En s = s\<lparr>deferlist := deferlist s \<union> set En\<rparr>"

definition leave :: "State \<Rightarrow> State" where
  "leave s =
     (let s1 = s\<lparr>evts := []\<rparr>
      in if reuse s1 then s1 else s1\<lparr>ta := None\<rparr>)"

definition set_params :: "nat list \<Rightarrow> State \<Rightarrow> State" where
  "set_params params s =
     (if length (param s) \<noteq> length params then s else s\<lparr>param := params\<rparr>)"

section \<open>The interruption policy as the specification words it\<close>

datatype verdict = Accept | Reject | Defer

text \<open>
  The caller \<^verbatim>\<open>post_event\<close> reads the integer of \<^verbatim>\<open>interrupt\<close> with the tests
  \<^verbatim>\<open>code\<close>, \<^verbatim>\<open>code == -1\<close> and \<^verbatim>\<open>code < 1\<close>: 0 drops the event, -1 buffers and
  queues it, 1 buffers it and transitions.
\<close>

definition verdict_of_code :: "int \<Rightarrow> verdict" where
  "verdict_of_code c = (if c = 0 then Reject else if c = - 1 then Defer else Accept)"

text \<open>The four rules of the specification's decision function, in its order.\<close>

definition spec_decide :: "ident set \<Rightarrow> ident set \<Rightarrow> ident set \<Rightarrow> ident \<Rightarrow> verdict" where
  "spec_decide white black defer e =
     (if white \<noteq> {} \<and> e \<notin> white then Reject
      else if e \<in> black then Reject
      else if e \<in> defer then Defer
      else Accept)"

section \<open>Operations of the machine\<close>

text \<open>A method call \<^verbatim>\<open>p->m()\<close> on the slot behind a pointer; a null pointer faults.\<close>

definition on_slot :: "ident \<Rightarrow> (State \<Rightarrow> State) \<Rightarrow> FSM \<Rightarrow> FSM option" where
  "on_slot n g f =
     (case states f n of
        None \<Rightarrow> None
      | Some s \<Rightarrow> Some (f\<lparr>states := (states f)(n \<mapsto> g s)\<rparr>))"

text \<open>\<^verbatim>\<open>StateImpl<T>::onevt\<close> of the slot registered as \<open>n\<close>.\<close>

definition onevt :: "app \<Rightarrow> ident \<Rightarrow> FSM \<Rightarrow> FSM option" where
  "onevt ap n f =
     (case states f n of
        None \<Rightarrow> None
      | Some s \<Rightarrow>
          (case ta s of
             None \<Rightarrow> Some f
           | Some inst \<Rightarrow>
               (case on_fsm_event ap n of
                  Some handler \<Rightarrow> handler inst f
                | None \<Rightarrow> Some (f\<lparr>states := (states f)(n \<mapsto> s\<lparr>evts := []\<rparr>)\<rparr>))))"

text \<open>
  \<^verbatim>\<open>new T(args...)\<close> inside \<^verbatim>\<open>enter\<close>: the arguments are copied out of
  \<^verbatim>\<open>param\<close>, the object is allocated, the constructor runs (and may call the
  engine), and only then is the pointer stored in \<^verbatim>\<open>ta\<close>.
\<close>

definition new_instance :: "app \<Rightarrow> ident \<Rightarrow> FSM \<Rightarrow> FSM option" where
  "new_instance ap n f =
     (case states f n of
        None \<Rightarrow> None
      | Some s \<Rightarrow>
          do {
            let args = param s;
            let a = heap_next f;
            f1 \<leftarrow> construct ap n args (f\<lparr>heap_next := a + 1\<rparr>);
            on_slot n (\<lambda>s'. s'\<lparr>ta := Some \<lparr>inst_id = a, inst_args = args\<rparr>\<rparr>) f1
          })"

definition enter :: "app \<Rightarrow> ident \<Rightarrow> FSM \<Rightarrow> FSM option" where
  "enter ap n f =
     do {
       s \<leftarrow> states f n;
       f1 \<leftarrow> (if ta s \<noteq> None \<and> \<not> reuse s then on_slot n leave f else Some f);
       s1 \<leftarrow> states f1 n;
       f2 \<leftarrow> (if ta s1 = None \<or> \<not> reuse s1 then new_instance ap n f1 else Some f1);
       s2 \<leftarrow> states f2 n;
       if evts s2 \<noteq> [] then onevt ap n f2 else Some f2
     }"

text \<open>\<^verbatim>\<open>FSM::_enter_state\<close> (an Isabelle name cannot start with an underscore).\<close>

definition priv_enter_state :: "app \<Rightarrow> ident \<Rightarrow> nat list \<Rightarrow> ident option \<Rightarrow> FSM \<Rightarrow> FSM option" where
  "priv_enter_state ap name paramlist oldstate0 f =
     (let oldstate = (if oldstate0 = None then curstate f else oldstate0);
          newstate = (if states f name \<noteq> None then Some name else None);
          f1 = f\<lparr>curstate := newstate\<rparr>
      in if oldstate = newstate then Some f1
         else do {
           f2 \<leftarrow> (case oldstate of None \<Rightarrow> Some f1 | Some old \<Rightarrow> on_slot old leave f1);
           f3 \<leftarrow> (case newstate of
                    None \<Rightarrow> Some f2
                  | Some new \<Rightarrow>
                      if paramlist \<noteq> [] then on_slot new (set_params paramlist) f2 else Some f2);
           (case newstate of None \<Rightarrow> Some f3 | Some new \<Rightarrow> enter ap new f3)
         })"

definition in_state :: "ident \<Rightarrow> FSM \<Rightarrow> bool" where
  "in_state T f = (case curstate f of None \<Rightarrow> False | Some c \<Rightarrow> c = T)"

definition exist_state :: "ident \<Rightarrow> FSM \<Rightarrow> bool" where
  "exist_state T f = (states f T \<noteq> None)"

definition get :: "ident \<Rightarrow> FSM \<Rightarrow> ident option" where
  "get T f = (if \<not> exist_state T f then None else Some T)"

definition get_state :: "ident \<Rightarrow> FSM \<Rightarrow> inst option" where
  "get_state T f = (if \<not> exist_state T f then None else Option.bind (states f T) ta)"

text \<open>
  The variadic templates take the list of their type arguments. \<^verbatim>\<open>option_reuse\<close>
  writes through the pointer \<^verbatim>\<open>get<T>()\<close> without testing it.
\<close>

fun option_reuse :: "ident list \<Rightarrow> FSM \<Rightarrow> FSM option" where
  "option_reuse [] f = Some f"
| "option_reuse (T # Tn) f =
     (case get T f of
        None \<Rightarrow> None
      | Some p \<Rightarrow> do { f1 \<leftarrow> on_slot p (\<lambda>s. s\<lparr>reuse := True\<rparr>) f; option_reuse Tn f1 })"

text \<open>
  A machine \<^verbatim>\<open>FSM<TStateParams...>\<close> with \<open>arity\<close> constructor parameters;
  the freshly made \<^verbatim>\<open>StateImpl\<close> holds a value-initialised tuple.
\<close>

definition new_State :: "nat \<Rightarrow> State" where
  "new_State arity =
     \<lparr>reuse = False, nextstate = '''', whitelist = {}, blacklist = {}, deferlist = {},
      evts = [], ta = None, param = replicate arity 0\<rparr>"

text \<open>
  \<^verbatim>\<open>regist_state<T, Tn...>\<close> returns at the first identity that is already
  registered, without looking at the rest.
\<close>

fun regist_state :: "nat \<Rightarrow> ident list \<Rightarrow> FSM \<Rightarrow> FSM" where
  "regist_state arity [] f = f"
| "regist_state arity (T # Tn) f =
     (if states f T \<noteq> None then f
      else regist_state arity Tn (f\<lparr>states := (states f)(T \<mapsto> new_State arity)\<rparr>))"

fun bind_chain :: "ident list \<Rightarrow> ident option \<Rightarrow> FSM \<Rightarrow> FSM" where
  "bind_chain [] prev f = f"
| "bind_chain (T1 # Tn) prev f =
     (let f1 = (case prev of
                  None \<Rightarrow> f
                | Some p \<Rightarrow>
                    (case states f p of
                       None \<Rightarrow> f
                     | Some s \<Rightarrow> f\<lparr>states := (states f)(p \<mapsto> s\<lparr>nextstate := T1\<rparr>)\<rparr>))
      in if Tn \<noteq> [] then bind_chain Tn (get T1 f1) f1 else f1)"

definition regist_chain_state :: "nat \<Rightarrow> ident list \<Rightarrow> FSM \<Rightarrow> FSM" where
  "regist_chain_state arity Tn f = bind_chain Tn None (regist_state arity Tn f)"

definition bind_event :: "ident list \<Rightarrow> ident \<Rightarrow> FSM \<Rightarrow> FSM" where
  "bind_event En state_name f =
     f\<lparr>events := fold (\<lambda>E m. m(E \<mapsto> state_name)) En (events f)\<rparr>"

definition regist_trans_event :: "nat \<Rightarrow> ident \<Rightarrow> ident list \<Rightarrow> FSM \<Rightarrow> FSM" where
  "regist_trans_event arity TState TEvent f =
     bind_event TEvent TState (regist_state arity [TState] f)"

definition regist_white_event :: "nat \<Rightarrow> ident \<Rightarrow> ident list \<Rightarrow> FSM \<Rightarrow> FSM option" where
  "regist_white_event arity TState TEvent f =
     on_slot TState (add_white_event TEvent) (regist_state arity [TState] f)"

definition regist_black_event :: "nat \<Rightarrow> ident \<Rightarrow> ident list \<Rightarrow> FSM \<Rightarrow> FSM option" where
  "regist_black_event arity TState TEvent f =
     on_slot TState (add_black_event TEvent) (regist_state arity [TState] f)"

definition regist_defer_event :: "nat \<Rightarrow> ident \<Rightarrow> ident list \<Rightarrow> FSM \<Rightarrow> FSM option" where
  "regist_defer_event arity TState TEvent f =
     on_slot TState (add_defer_event TEvent) (regist_state arity [TState] f)"

text \<open>\<^verbatim>\<open>enter_state<T>\<close>: the pointer \<^verbatim>\<open>s = get<T>()\<close> it fetches is never used.\<close>

definition enter_state :: "app \<Rightarrow> ident \<Rightarrow> nat list \<Rightarrow> FSM \<Rightarrow> FSM option" where
  "enter_state ap T params f = priv_enter_state ap T params None f"

text \<open>
  \<^verbatim>\<open>next_state<T>(mine, params...)\<close>; \<open>T\<close> is the class of the caller's
  \<^verbatim>\<open>this\<close>.
\<close>

definition next_state :: "app \<Rightarrow> ident \<Rightarrow> nat list \<Rightarrow> FSM \<Rightarrow> FSM option" where
  "next_state ap T params f =
     (if eof f \<or> curstate f = None then Some f
      else case curstate f of
        None \<Rightarrow> Some f
      | Some c \<Rightarrow>
          if c \<noteq> T then Some f
          else do {
            (staname, f1) \<leftarrow>
              (case waitstates f of
                 w # ws \<Rightarrow> Some (w, f\<lparr>waitstates := ws\<rparr>)
               | [] \<Rightarrow> map_option (\<lambda>s. (nextstate s, f)) (states f c));
            f2 \<leftarrow> priv_enter_state ap staname params (Some c) (f1\<lparr>waitsize := waitsize f1 + 1\<rparr>);
            Some (f2\<lparr>waitsize := waitsize f2 - 1\<rparr>)
          })"

text \<open>
  \<^verbatim>\<open>post_event<E>(evt, params...)\<close>: \<open>E\<close> is the event's class and \<open>v\<close> its
  value. \<^verbatim>\<open>states[staname]\<close> on an unregistered name yields a null pointer.
\<close>

definition post_event :: "app \<Rightarrow> ident \<Rightarrow> nat \<Rightarrow> nat list \<Rightarrow> FSM \<Rightarrow> FSM option" where
  "post_event ap E v params f =
     (if eof f then Some f
      else
        let evtname = E;
            exist = (events f evtname \<noteq> None)
        in if \<not> exist \<and> curstate f = None then Some f
           else
             let staname = (case events f evtname of Some t \<Rightarrow> t | None \<Rightarrow> '''')
             in if curstate f = Some staname \<or> \<not> exist then
                  do {
                    c \<leftarrow> curstate f;
                    f1 \<leftarrow> on_slot c (add_event E v) f;
                    f2 \<leftarrow> onevt ap c (f1\<lparr>waitsize := waitsize f1 + 1\<rparr>);
                    Some (f2\<lparr>waitsize := waitsize f2 - 1\<rparr>)
                  }
                else
                  do {
                    code \<leftarrow> (case curstate f of
                               None \<Rightarrow> Some 1
                             | Some c \<Rightarrow> map_option (\<lambda>s. interrupt s evtname) (states f c));
                    f1 \<leftarrow> (if code \<noteq> 0 then on_slot staname (add_event E v) f else Some f);
                    let f2 = (if code = - 1 then f1\<lparr>waitstates := waitstates f1 @ [staname]\<rparr> else f1);
                    if code < 1 then Some f2
                    else do {
                      f3 \<leftarrow> priv_enter_state ap staname params (curstate f2)
                              (f2\<lparr>waitsize := waitsize f2 + 1\<rparr>);
                      Some (f3\<lparr>waitsize := waitsize f3 - 1\<rparr>)
                    }
                  })"

section \<open>Application code that calls the engine\<close>

text \<open>
  What the code of a state class does with the engine: its constructor and its
  \<^verbatim>\<open>on_fsm_event\<close> are lists of calls, \<^verbatim>\<open>fsm.next_state(this, args...)\<close>,
  \<^verbatim>\<open>fsm.post_event(evt, args...)\<close>, \<^verbatim>\<open>fsm.get(this)->get_event(evt)\<close> and
  \<^verbatim>\<open>fsm.enter_state<T>(args...)\<close>, made with the constructor's own arguments.
\<close>

datatype call = Advance | Post ident nat | Take ident | Enter ident

fun do_call :: "app \<Rightarrow> ident \<Rightarrow> nat list \<Rightarrow> call \<Rightarrow> FSM \<Rightarrow> FSM option" where
  "do_call ap self args Advance f = next_state ap self args f"
| "do_call ap self args (Post E v) f = post_event ap E v args f"
| "do_call ap self args (Take E) f = on_slot self (\<lambda>s. snd (get_event E s)) f"
| "do_call ap self args (Enter T) f = enter_state ap T args f"

fun run :: "app \<Rightarrow> ident \<Rightarrow> nat list \<Rightarrow> call list \<Rightarrow> FSM \<Rightarrow> FSM option" where
  "run ap self args [] f = Some f"
| "run ap self args (c # cs) f = Option.bind (do_call ap self args c f) (run ap self args cs)"

record program =
  ctor_body :: "ident \<Rightarrow> call list"
  handler_body :: "ident \<Rightarrow> call list option"

text \<open>
  The engine and the application call each other. \<open>app_of n p\<close> is the
  application \<open>p\<close> run with at most \<open>n\<close> constructors and handlers nested in
  each other; a deeper nesting has no result.
\<close>

primrec app_of :: "nat \<Rightarrow> program \<Rightarrow> app" where
  "app_of 0 p =
     \<lparr>construct = (\<lambda>T args f. None),
      on_fsm_event = (\<lambda>T. map_option (\<lambda>body i f. None) (handler_body p T))\<rparr>"
| "app_of (Suc n) p =
     \<lparr>construct = (\<lambda>T args f. run (app_of n p) T args (ctor_body p T) f),
      on_fsm_event =
        (\<lambda>T. map_option (\<lambda>body i f. run (app_of n p) T (inst_args i) body f)
               (handler_body p T))\<rparr>"

section \<open>Predicates used to state the properties\<close>

text \<open>
  \<open>deferred_target f E\<close>: the target that a post of \<open>E\<close> on \<open>f\<close> defers, if the
  post reaches the policy and the policy answers -1. The policy is consulted
  when the machine is live, a state is active and the event is routed to
  another state.
\<close>

definition deferred_target :: "FSM \<Rightarrow> ident \<Rightarrow> ident option" where
  "deferred_target f E =
     (case curstate f of
        None \<Rightarrow> None
      | Some c \<Rightarrow>
          (case events f E of
             None \<Rightarrow> None
           | Some t \<Rightarrow>
               (case states f c of
                  None \<Rightarrow> None
                | Some cs \<Rightarrow>
                    if \<not> eof f \<and> t \<noteq> c \<and> interrupt cs E = - 1 then Some t else None)))"

text \<open>
  \<open>keeps_queue ap\<close>: no constructor and no event handler of the application
  changes the deferred-target queue (none of them posts a deferred event or
  advances while targets are queued).
\<close>

definition keeps_queue :: "app \<Rightarrow> bool" where
  "keeps_queue ap =
     ((\<forall>n args g g'. construct ap n args g = Some g' \<longrightarrow> waitstates g' = waitstates g) \<and>
      (\<forall>n h i g g'. on_fsm_event ap n = Some h \<longrightarrow> h i g = Some g' \<longrightarrow>
         waitstates g' = waitstates g))"

text \<open>
  \<open>queue_respects R ap\<close>: \<open>R\<close> is reflexive and transitive, and every
  constructor and every handler of the application takes a queue to an
  \<open>R\<close>-related one. With equality for \<open>R\<close> this is \<open>keeps_queue\<close>.
\<close>

definition queue_respects :: "(ident list \<Rightarrow> ident list \<Rightarrow> bool) \<Rightarrow> app \<Rightarrow> bool" where
  "queue_respects R ap =
     ((\<forall>q. R q q) \<and> (\<forall>a b c. R a b \<longrightarrow> R b c \<longrightarrow> R a c) \<and>
      (\<forall>n args g g'. construct ap n args g = Some g' \<longrightarrow> R (waitstates g) (waitstates g')) \<and>
      (\<forall>n h i g g'. on_fsm_event ap n = Some h \<longrightarrow> h i g = Some g' \<longrightarrow>
         R (waitstates g) (waitstates g')))"

text \<open>A call that is neither an advance nor a post.\<close>

fun quiet_call :: "call \<Rightarrow> bool" where
  "quiet_call Advance = False"
| "quiet_call (Post E v) = False"
| "quiet_call (Take E) = True"
| "quiet_call (Enter T) = True"

text \<open>\<open>pending n f\<close>: the payloads buffered in the slot registered as \<open>n\<close>.\<close>

definition pending :: "ident \<Rightarrow> FSM \<Rightarrow> (ident \<times> any) list" where
  "pending n f = (case states f n of None \<Rightarrow> [] | Some s \<Rightarrow> evts s)"

text \<open>
  \<open>routes_registered f\<close>: every target of the routing table has a slot. The
  registration functions keep it, and \<^verbatim>\<open>post_event\<close> relies on it when it
  writes through \<^verbatim>\<open>states[staname]\<close>.
\<close>

definition routes_registered :: "FSM \<Rightarrow> bool" where
  "routes_registered f = (\<forall>E t. events f E = Some t \<longrightarrow> states f t \<noteq> None)"

section \<open>The example program\<close>

text \<open>
  The machine of the example: one constructor parameter, the chains
  Ready \<open>\<rightarrow>\<close> BuildMap and Clean \<open>\<rightarrow>\<close> Recharge, CleanEvent routed to Clean and
  blacklisted by Recharge.
\<close>

definition fsm_init :: FSM where
  "fsm_init =
     \<lparr>eof = False, waitsize = 0, curstate = None, waitstates = [], events = Map.empty,
      states = Map.empty, heap_next = 0\<rparr>"

definition test_fsm :: FSM where
  "test_fsm =
     \<lparr>eof = False, waitsize = 0, curstate = None, waitstates = [],
      events = [''CleanEvent'' \<mapsto> ''Clean''],
      states = [''Ready'' \<mapsto> (new_State 1)\<lparr>nextstate := ''BuildMap''\<rparr>,
                ''BuildMap'' \<mapsto> new_State 1,
                ''Clean'' \<mapsto> (new_State 1)\<lparr>nextstate := ''Recharge''\<rparr>,
                ''Recharge'' \<mapsto> (new_State 1)\<lparr>blacklist := {''CleanEvent''}\<rparr>],
      heap_next = 0\<rparr>"

text \<open>The same machine after BuildMap has been told to defer CleanEvent.\<close>

definition robot :: FSM where
  "robot =
     test_fsm\<lparr>states := (states test_fsm)
       (''BuildMap'' \<mapsto> (new_State 1)\<lparr>deferlist := {''CleanEvent''}\<rparr>)\<rparr>"

text \<open>
  \<open>at_state T\<close> is \<open>robot\<close> after \<^verbatim>\<open>enter_state<T>(7)\<close> for a registered \<open>T\<close>
  whose constructor does not call the engine.
\<close>

definition at_state :: "ident \<Rightarrow> FSM" where
  "at_state T =
     robot\<lparr>curstate := Some T,
       states := (states robot)
         (T \<mapsto> (the (states robot T))\<lparr>param := [7], ta := Some \<lparr>inst_id = 0, inst_args = [7]\<rparr>\<rparr>),
       heap_next := 1\<rparr>"

text \<open>
  A slot whose three lists overlap, one that holds a payload under the key of
  another type (possible only by writing \<^verbatim>\<open>evts\<close> from a subclass), and a
  reused slot with an instance and a pending payload.
\<close>

definition guarded_slot :: State where
  "guarded_slot =
     (new_State 1)\<lparr>whitelist := {''E1'', ''E2''}, blacklist := {''E1''},
       deferlist := {''E1'', ''E2''}\<rparr>"

definition misused_slot :: State where
  "misused_slot = (new_State 1)\<lparr>evts := [(''CleanEvent'', Any ''Point'' 3)]\<rparr>"

definition reused_slot :: State where
  "reused_slot =
     (new_State 1)\<lparr>reuse := True, ta := Some \<lparr>inst_id = 4, inst_args = [7]\<rparr>,
       evts := [(''CleanEvent'', Any ''CleanEvent'' 5)]\<rparr>"

text \<open>An application none of whose classes calls the engine or handles events.\<close>

definition quiet_app :: app where
  "quiet_app = \<lparr>construct = (\<lambda>T args f. Some f), on_fsm_event = (\<lambda>T. None)\<rparr>"

text \<open>A program in which Clean's handler only takes the event out of its slot.\<close>

definition taking_program :: program where
  "taking_program =
     \<lparr>ctor_body = (\<lambda>T. []),
      handler_body = (\<lambda>T. if T = ''Clean'' then Some [Take ''CleanEvent''] else None)\<rparr>"

definition taking_app :: app where
  "taking_app = app_of (Suc 0) taking_program"

text \<open>
  The classes of the example program: the constructor of \<^verbatim>\<open>ReadyState\<close>
  advances, the constructor of \<^verbatim>\<open>BuildMapState\<close> posts a CleanEvent,
  \<^verbatim>\<open>CleanState::on_fsm_event\<close> takes the event and advances, and
  \<^verbatim>\<open>RechargeState\<close> calls nothing. Four levels of nesting are enough for it.
\<close>

definition example_program :: program where
  "example_program =
     \<lparr>ctor_body = (\<lambda>T. if T = ''Ready'' then [Advance]
                        else if T = ''BuildMap'' then [Post ''CleanEvent'' 1] else []),
      handler_body = (\<lambda>T. if T = ''Clean'' then Some [Take ''CleanEvent'', Advance] else None)\<rparr>"

definition test_app :: app where
  "test_app = app_of (Suc (Suc (Suc (Suc 0)))) example_program"

section \<open>Auxiliary facts\<close>

lemma on_slot_Some:
  "states f n = Some s \<Longrightarrow> on_slot n g f = Some (f\<lparr>states := (states f)(n \<mapsto> g s)\<rparr>)"
  by (simp add: on_slot_def)

lemma on_slot_queue: "on_slot n g f = Some f' \<Longrightarrow> waitstates f' = waitstates f"
  by (auto simp: on_slot_def split: option.splits)

lemma keeps_queue_construct:
  "keeps_queue ap \<Longrightarrow> construct ap n args g = Some g' \<Longrightarrow> waitstates g' = waitstates g"
  unfolding keeps_queue_def by blast

lemma keeps_queue_handler:
  "keeps_queue ap \<Longrightarrow> on_fsm_event ap n = Some h \<Longrightarrow> h i g = Some g' \<Longrightarrow>
   waitstates g' = waitstates g"
  unfolding keeps_queue_def by blast

lemma keeps_queue_respects:
  assumes "keeps_queue ap"
  shows "queue_respects (=) ap"
  unfolding queue_respects_def
proof (intro conjI allI impI)
  fix n args g g'
  assume "construct ap n args g = Some g'"
  from keeps_queue_construct [OF assms this] show "waitstates g = waitstates g'" by (rule sym)
next
  fix n h i g g'
  assume "on_fsm_event ap n = Some h" "h i g = Some g'"
  from keeps_queue_handler [OF assms this] show "waitstates g = waitstates g'" by (rule sym)
qed simp_all

text \<open>
  The engine adds no change of its own to the queue: whatever \<open>R\<close> the
  application respects, dispatching, constructing, entering and the transition
  routine respect; a post is a push (when it defers) followed by \<open>R\<close>, an
  advance a pop (when the caller is active) followed by \<open>R\<close>.
\<close>

lemma respects_refl: "queue_respects R ap \<Longrightarrow> R q q"
  by (simp add: queue_respects_def)

lemma respects_trans:
  assumes "queue_respects R ap" "R a b" "R b c"
  shows "R a c"
proof -
  from assms(1) have "\<forall>a b c. R a b \<longrightarrow> R b c \<longrightarrow> R a c"
    unfolding queue_respects_def by (elim conjE)
  then have "R a b \<longrightarrow> R b c \<longrightarrow> R a c"
    by (elim allE)
  with assms(2,3) show ?thesis by simp
qed

lemma respects_construct:
  assumes "queue_respects R ap" "construct ap n args g = Some g'"
  shows "R (waitstates g) (waitstates g')"
proof -
  from assms(1) have
    "\<forall>n args g g'. construct ap n args g = Some g' \<longrightarrow> R (waitstates g) (waitstates g')"
    unfolding queue_respects_def by (elim conjE)
  then have "construct ap n args g = Some g' \<longrightarrow> R (waitstates g) (waitstates g')"
    by (elim allE)
  with assms(2) show ?thesis by simp
qed

lemma respects_handler:
  assumes "queue_respects R ap" "on_fsm_event ap n = Some h" "h i g = Some g'"
  shows "R (waitstates g) (waitstates g')"
proof -
  from assms(1) have
    "\<forall>n h i g g'. on_fsm_event ap n = Some h \<longrightarrow> h i g = Some g' \<longrightarrow>
       R (waitstates g) (waitstates g')"
    unfolding queue_respects_def by (elim conjE)
  then have "on_fsm_event ap n = Some h \<longrightarrow> h i g = Some g' \<longrightarrow>
      R (waitstates g) (waitstates g')"
    by (elim allE)
  with assms(2,3) show ?thesis by simp
qed

lemma onevt_respects:
  assumes r: "queue_respects R ap" and e: "onevt ap n f = Some f'"
  shows "R (waitstates f) (waitstates f')"
proof -
  from e obtain s where s: "states f n = Some s"
    by (auto simp: onevt_def split: option.splits)
  show ?thesis
  proof (cases "ta s")
    case None
    with e s have "f' = f" by (simp add: onevt_def)
    then show ?thesis by (simp add: respects_refl [OF r])
  next
    case (Some i)
    show ?thesis
    proof (cases "on_fsm_event ap n")
      case None
      with e s Some have "waitstates f' = waitstates f" by (auto simp: onevt_def)
      then show ?thesis by (simp add: respects_refl [OF r])
    next
      case (Some h)
      with e s \<open>ta s = Some i\<close> have "h i f = Some f'" by (simp add: onevt_def)
      with Some show ?thesis by (rule respects_handler [OF r])
    qed
  qed
qed

lemma new_instance_respects:
  assumes r: "queue_respects R ap" and e: "new_instance ap n f = Some f'"
  shows "R (waitstates f) (waitstates f')"
  using e
  by (auto simp: new_instance_def Let_def split: option.splits Option.bind_splits
      dest!: on_slot_queue respects_construct [OF r])

lemma enter_respects:
  assumes r: "queue_respects R ap" and e: "enter ap n f = Some f'"
  shows "R (waitstates f) (waitstates f')"
  using e
  apply (auto simp: enter_def respects_refl [OF r] split: Option.bind_splits if_splits
      dest!: on_slot_queue new_instance_respects [OF r] onevt_respects [OF r])
      apply (rule respects_trans [OF r], assumption, assumption)+
  done

lemma priv_enter_state_respects:
  assumes r: "queue_respects R ap" and e: "priv_enter_state ap name ps old f = Some f'"
  shows "R (waitstates f) (waitstates f')"
  using e
  by (auto simp: priv_enter_state_def Let_def respects_refl [OF r]
      split: if_splits option.splits Option.bind_splits
      dest!: on_slot_queue enter_respects [OF r])

lemma post_event_respects:
  assumes r: "queue_respects R ap" and e: "post_event ap E v ps f = Some f'"
  shows "R (waitstates f @ (case deferred_target f E of None \<Rightarrow> [] | Some t \<Rightarrow> [t]))
           (waitstates f')"
  using e
  by (auto simp: post_event_def deferred_target_def Let_def respects_refl [OF r]
      split: if_splits option.splits Option.bind_splits
      dest!: on_slot_queue priv_enter_state_respects [OF r] onevt_respects [OF r])

lemma next_state_respects:
  assumes r: "queue_respects R ap" and e: "next_state ap T ps f = Some f'"
  shows "R (if \<not> eof f \<and> curstate f = Some T then tl (waitstates f) else waitstates f)
           (waitstates f')"
  using e
  by (auto simp: next_state_def Let_def respects_refl [OF r]
      split: if_splits option.splits Option.bind_splits list.splits
      dest!: priv_enter_state_respects [OF r])


lemma enter_queue:
  "keeps_queue ap \<Longrightarrow> enter ap n f = Some f' \<Longrightarrow> waitstates f' = waitstates f"
  using enter_respects [OF keeps_queue_respects, of ap n f f'] by simp

lemma priv_enter_state_queue:
  "keeps_queue ap \<Longrightarrow> priv_enter_state ap name ps old f = Some f' \<Longrightarrow>
   waitstates f' = waitstates f"
  using priv_enter_state_respects [OF keeps_queue_respects, of ap name ps old f f'] by simp

lemma post_event_queue:
  "keeps_queue ap \<Longrightarrow> post_event ap E v ps f = Some f' \<Longrightarrow>
   waitstates f' = waitstates f @ (case deferred_target f E of None \<Rightarrow> [] | Some t \<Rightarrow> [t])"
  using post_event_respects [OF keeps_queue_respects, of ap E v ps f f'] by simp

lemma next_state_queue:
  "keeps_queue ap \<Longrightarrow> next_state ap T ps f = Some f' \<Longrightarrow>
   waitstates f' = (if \<not> eof f \<and> curstate f = Some T then tl (waitstates f) else waitstates f)"
  using next_state_respects [OF keeps_queue_respects, of ap T ps f f'] by simp

lemma next_state_front:
  assumes "\<not> eof f" "curstate f = Some T" "waitstates f = w # ws"
  shows "next_state ap T ps f =
           map_option (\<lambda>g. g\<lparr>waitsize := waitsize g - 1\<rparr>)
             (priv_enter_state ap w ps (Some T) (f\<lparr>waitstates := ws, waitsize := waitsize f + 1\<rparr>))"
  using assms by (simp add: next_state_def map_option_case split: option.splits)

lemma keeps_queue_quiet: "keeps_queue quiet_app"
  by (simp add: keeps_queue_def quiet_app_def)

text \<open>
  Application code that makes no advance and no post keeps the queue, however
  deep its forced transitions nest.
\<close>

lemma do_call_queue:
  assumes "keeps_queue ap" "quiet_call c" "do_call ap self args c f = Some f'"
  shows "waitstates f' = waitstates f"
proof (cases c)
  case (Take E)
  with assms(3) show ?thesis by (auto dest: on_slot_queue)
next
  case (Enter T)
  with assms(3) have "priv_enter_state ap T args None f = Some f'"
    by (simp add: enter_state_def)
  then show ?thesis by (rule priv_enter_state_queue [OF assms(1)])
qed (use assms(2) in simp_all)

lemma run_queue:
  assumes "keeps_queue ap"
  shows "list_all quiet_call cs \<Longrightarrow> run ap self args cs f = Some f' \<Longrightarrow>
         waitstates f' = waitstates f"
proof (induction cs arbitrary: f)
  case Nil
  then show ?case by simp
next
  case (Cons c cs)
  from Cons.prems(2) obtain g where g: "do_call ap self args c f = Some g"
    and r: "run ap self args cs g = Some f'"
    by (auto split: Option.bind_splits)
  from Cons.prems(1) have "quiet_call c" "list_all quiet_call cs" by simp_all
  with g r Cons.IH [of g] do_call_queue [OF assms, of c self args f g]
  show ?case by simp
qed

lemma keeps_queue_app_of:
  assumes c: "\<And>T. list_all quiet_call (ctor_body p T)"
    and h: "\<And>T b. handler_body p T = Some b \<Longrightarrow> list_all quiet_call b"
  shows "keeps_queue (app_of n p)"
proof (induction n)
  case 0
  show ?case by (auto simp: keeps_queue_def)
next
  case (Suc n)
  have ctor: "waitstates g' = waitstates g"
    if "construct (app_of (Suc n) p) T args g = Some g'" for T args g g'
  proof -
    from that have "run (app_of n p) T args (ctor_body p T) g = Some g'" by simp
    with c [of T] show ?thesis by (rule run_queue [OF Suc])
  qed
  have hdl: "waitstates g' = waitstates g"
    if "on_fsm_event (app_of (Suc n) p) T = Some hd" "hd i g = Some g'" for T hd i g g'
  proof -
    from that(1) obtain b where b: "handler_body p T = Some b"
      and hd: "hd = (\<lambda>i f. run (app_of n p) T (inst_args i) b f)"
      by auto
    from that(2) hd have "run (app_of n p) T (inst_args i) b g = Some g'" by simp
    with h [OF b] show ?thesis by (rule run_queue [OF Suc])
  qed
  show ?case
    unfolding keeps_queue_def using ctor hdl by blast
qed

text \<open>
  A transition to a registered state other than the old one: the new state is
  published as active, the old slot is left, the parameters are stored, and
  the new slot is entered.
\<close>

lemma priv_enter_state_registered:
  assumes "states f old = Some os" "states f new = Some ns" "new \<noteq> old"
  shows "priv_enter_state ap new ps (Some old) f =
           enter ap new
             (if ps \<noteq> [] then
                f\<lparr>curstate := Some new,
                  states := (states f)(old \<mapsto> leave os, new \<mapsto> set_params ps ns)\<rparr>
              else f\<lparr>curstate := Some new, states := (states f)(old \<mapsto> leave os)\<rparr>)"
  using assms by (simp add: priv_enter_state_def on_slot_def)

subsection \<open>The example machine\<close>

lemmas example_defs = test_fsm_def robot_def at_state_def new_State_def fsm_init_def

lemmas engine_defs = enter_state_def priv_enter_state_def enter_def new_instance_def on_slot_def
  onevt_def next_state_def post_event_def set_params_def leave_def add_event_def get_event_def
  interrupt_def get_state_def exist_state_def Let_def

lemma test_fsm_registered:
  "regist_black_event 1 ''Recharge'' [''CleanEvent'']
     (regist_trans_event 1 ''Clean'' [''CleanEvent'']
       (regist_chain_state 1 [''Clean'', ''Recharge'']
         (regist_chain_state 1 [''Ready'', ''BuildMap''] fsm_init))) = Some test_fsm"
  by (simp add: example_defs regist_black_event_def regist_trans_event_def regist_chain_state_def
      on_slot_def bind_event_def get_def exist_state_def add_black_event_def fun_eq_iff)

lemma robot_registered:
  "regist_defer_event 1 ''BuildMap'' [''CleanEvent''] test_fsm = Some robot"
  by (simp add: example_defs regist_defer_event_def on_slot_def add_defer_event_def fun_eq_iff)

lemma at_state_entered:
  "enter_state quiet_app ''Ready'' [7] robot = Some (at_state ''Ready'')"
  "enter_state quiet_app ''BuildMap'' [7] robot = Some (at_state ''BuildMap'')"
  "enter_state quiet_app ''Clean'' [7] robot = Some (at_state ''Clean'')"
  "enter_state quiet_app ''Recharge'' [7] robot = Some (at_state ''Recharge'')"
  "enter_state test_app ''Clean'' [7] robot = Some (at_state ''Clean'')"
  "enter_state test_app ''Recharge'' [7] robot = Some (at_state ''Recharge'')"
  by (simp_all add: example_defs engine_defs quiet_app_def test_app_def example_program_def
      fun_eq_iff)

text \<open>
  The example program: entering Ready runs through BuildMap and Clean and ends
  in Recharge, where a further CleanEvent is ignored.
\<close>

lemma test_program_run:
  "map_option curstate (enter_state test_app ''Ready'' [7] test_fsm) = Some (Some ''Recharge'')"
  "Option.bind (enter_state test_app ''Ready'' [7] test_fsm) (post_event test_app ''CleanEvent'' 1 [7])
     = enter_state test_app ''Ready'' [7] test_fsm"
  by (simp_all add: example_defs engine_defs test_app_def example_program_def)

lemma option_reuse_unregistered: "states f T = None \<Longrightarrow> option_reuse (T # Tn) f = None"
  by (simp add: get_def exist_state_def)

subsection \<open>Registration keeps the routing table inside the registry\<close>

lemma regist_state_events: "events (regist_state a Ts f) = events f"
  by (induction Ts arbitrary: f) auto

lemma regist_state_keeps: "states f T \<noteq> None \<Longrightarrow> states (regist_state a Ts f) T \<noteq> None"
  by (induction Ts arbitrary: f) auto

lemma regist_state_single: "states (regist_state a [T] f) T \<noteq> None"
  by simp

lemma fold_bind: "fold (\<lambda>E m. m(E \<mapsto> t)) En m E' = (if E' \<in> set En then Some t else m E')"
  by (induction En arbitrary: m) auto

lemma regist_trans_event_routes:
  assumes "routes_registered f"
  shows "routes_registered (regist_trans_event a T En f)"
proof -
  define g where "g = regist_state a [T] f"
  have old: "states g t \<noteq> None" if "events g E = Some t" for E t
    using assms that regist_state_keeps [of f t a "[T]"]
    by (auto simp: routes_registered_def g_def regist_state_events simp del: regist_state.simps)
  have new: "states g T \<noteq> None"
    unfolding g_def by (rule regist_state_single)
  have "states g t \<noteq> None" if "fold (\<lambda>E m. m(E \<mapsto> T)) En (events g) E = Some t" for E t
    using that old new by (auto simp: fold_bind split: if_splits)
  then show ?thesis
    unfolding routes_registered_def regist_trans_event_def bind_event_def g_def [symmetric]
    by simp
qed

section \<open>The claims\<close>

text \<open>
  Claim C1. For every slot and event identity the verdict of \<^verbatim>\<open>interrupt\<close> is
  the one of the specification's decision function: Reject when the whitelist
  is non-empty and lacks the identity, else Reject when the blacklist has it,
  else Defer when the deferlist has it, else Accept. An identity in the
  whitelist and the blacklist is rejected; one in the whitelist and the
  deferlist (and not blacklisted, which rule 2 decides first) is deferred.
\<close>

theorem interrupt_precedence:
  "verdict_of_code (interrupt s e) = spec_decide (whitelist s) (blacklist s) (deferlist s) e
   \<and> (whitelist s \<noteq> {} \<and> e \<notin> whitelist s \<longrightarrow> interrupt s e = 0)
   \<and> ((whitelist s = {} \<or> e \<in> whitelist s) \<and> e \<in> blacklist s \<longrightarrow> interrupt s e = 0)
   \<and> ((whitelist s = {} \<or> e \<in> whitelist s) \<and> e \<notin> blacklist s \<and> e \<in> deferlist s \<longrightarrow>
        interrupt s e = - 1)
   \<and> ((whitelist s = {} \<or> e \<in> whitelist s) \<and> e \<notin> blacklist s \<and> e \<notin> deferlist s \<longrightarrow>
        interrupt s e = 1)
   \<and> (e \<in> whitelist s \<and> e \<in> blacklist s \<longrightarrow> verdict_of_code (interrupt s e) = Reject)
   \<and> (e \<in> whitelist s \<and> e \<in> deferlist s \<and> e \<notin> blacklist s \<longrightarrow>
        verdict_of_code (interrupt s e) = Defer)"
  by (auto simp: interrupt_def verdict_of_code_def spec_decide_def)

text \<open>The four verdicts on a slot whose lists overlap and on a slot without lists.\<close>

theorem interrupt_precedence_witness:
  "verdict_of_code (interrupt guarded_slot ''E1'') = Reject
   \<and> verdict_of_code (interrupt guarded_slot ''E2'') = Defer
   \<and> verdict_of_code (interrupt guarded_slot ''E3'') = Reject
   \<and> verdict_of_code (interrupt (new_State 1) ''E1'') = Accept"
  using interrupt_precedence [of guarded_slot "''E1''"] interrupt_precedence [of guarded_slot "''E2''"]
    interrupt_precedence [of guarded_slot "''E3''"] interrupt_precedence [of "new_State 1" "''E1''"]
  by (simp add: guarded_slot_def new_State_def spec_decide_def verdict_of_code_def)

text \<open>
  Claim C2, as the code has it. A live machine, an advance whose caller is the
  active state: when the deferred-target queue is non-empty its front entry is
  popped and is the destination, whatever the chain successor; otherwise the
  destination is the active slot's \<^verbatim>\<open>nextstate\<close> string, which is empty when
  no successor was bound. The destination goes to \<^verbatim>\<open>_enter_state\<close> with the
  caller as old state. When the queue is empty and the successor string names
  no registered state (so also when there is no successor) the active state is
  left and the machine has no active state afterwards.
\<close>

theorem next_state_destination:
  assumes "\<not> eof f" "curstate f = Some T" "states f T = Some s"
  shows "(\<forall>w ws. waitstates f = w # ws \<longrightarrow>
            next_state ap T ps f =
              map_option (\<lambda>g. g\<lparr>waitsize := waitsize g - 1\<rparr>)
                (priv_enter_state ap w ps (Some T) (f\<lparr>waitstates := ws, waitsize := waitsize f + 1\<rparr>)))
       \<and> (waitstates f = [] \<longrightarrow>
            next_state ap T ps f =
              map_option (\<lambda>g. g\<lparr>waitsize := waitsize g - 1\<rparr>)
                (priv_enter_state ap (nextstate s) ps (Some T) (f\<lparr>waitsize := waitsize f + 1\<rparr>)))
       \<and> (waitstates f = [] \<and> states f (nextstate s) = None \<longrightarrow>
            next_state ap T ps f = Some (f\<lparr>curstate := None, states := (states f)(T \<mapsto> leave s)\<rparr>))"
  using assms
  by (auto simp: next_state_def priv_enter_state_def on_slot_Some map_option_case split: option.splits)

text \<open>
  A deferred Clean overrides Ready's successor BuildMap; without a deferred
  target Ready advances to BuildMap; Recharge, which has no successor, is left.
\<close>

theorem next_state_destination_witness:
  "\<not> eof (at_state ''Ready'') \<and> curstate (at_state ''Ready'') = Some ''Ready''
   \<and> nextstate (the (states (at_state ''Ready'') ''Ready'')) = ''BuildMap''
   \<and> map_option curstate (next_state quiet_app ''Ready'' [7] ((at_state ''Ready'')\<lparr>waitstates := [''Clean'']\<rparr>))
       = Some (Some ''Clean'')
   \<and> map_option waitstates (next_state quiet_app ''Ready'' [7] ((at_state ''Ready'')\<lparr>waitstates := [''Clean'']\<rparr>))
       = Some []
   \<and> map_option curstate (next_state quiet_app ''Ready'' [7] (at_state ''Ready'')) = Some (Some ''BuildMap'')
   \<and> nextstate (the (states (at_state ''Recharge'') ''Recharge'')) = ''''
   \<and> states (at_state ''Recharge'') '''' = None
   \<and> next_state quiet_app ''Recharge'' [7] (at_state ''Recharge'') =
       Some ((at_state ''Recharge'')
         \<lparr>curstate := None,
          states := (states (at_state ''Recharge''))
            (''Recharge'' \<mapsto> leave (the (states (at_state ''Recharge'') ''Recharge'')))\<rparr>)"
  using next_state_destination [of "(at_state ''Ready'')\<lparr>waitstates := [''Clean'']\<rparr>" "''Ready''"
      "the (states (at_state ''Ready'') ''Ready'')" quiet_app "[7]"]
    next_state_destination [of "at_state ''Ready''" "''Ready''"
      "the (states (at_state ''Ready'') ''Ready'')" quiet_app "[7]"]
    next_state_destination [of "at_state ''Recharge''" "''Recharge''"
      "the (states (at_state ''Recharge'') ''Recharge'')" quiet_app "[7]"]
  by (simp add: example_defs engine_defs quiet_app_def option.map_comp comp_def)

text \<open>
  Claim C2 as stated fails in its last case: Recharge is active, nothing is
  deferred and Recharge has no chain successor, yet after the advance no state
  is active and the instance of Recharge is gone.
\<close>

theorem next_state_no_successor_counterexample:
  "\<not> eof (at_state ''Recharge'')
   \<and> curstate (at_state ''Recharge'') = Some ''Recharge''
   \<and> waitstates (at_state ''Recharge'') = []
   \<and> map_option nextstate (states (at_state ''Recharge'') ''Recharge'') = Some ''''
   \<and> get_state ''Recharge'' (at_state ''Recharge'') = Some \<lparr>inst_id = 0, inst_args = [7]\<rparr>
   \<and> map_option curstate (next_state quiet_app ''Recharge'' [7] (at_state ''Recharge'')) = Some None
   \<and> map_option (get_state ''Recharge'') (next_state quiet_app ''Recharge'' [7] (at_state ''Recharge''))
       = Some None"
  by (simp add: example_defs engine_defs quiet_app_def)

text \<open>
  Claim C3. A live machine, an active state \<open>c\<close>, an event routed to a
  registered state \<open>t\<close> other than \<open>c\<close>, and the policy of \<open>c\<close> answering -1: the
  post returns the machine with the payload stored in the slot of \<open>t\<close> and \<open>t\<close>
  appended to the queue. Nothing else differs: the active identity and the
  active slot are as before, and the result does not depend on the
  application, so no constructor, handler, enter or leave has run.
\<close>

theorem post_event_defer:
  assumes "\<not> eof f" "curstate f = Some c" "states f c = Some cs" "events f E = Some t" "t \<noteq> c"
    "interrupt cs E = - 1" "states f t = Some ts"
  shows "post_event ap E v ps f =
           Some (f\<lparr>states := (states f)(t \<mapsto> add_event E v ts), waitstates := waitstates f @ [t]\<rparr>)"
  using assms by (simp add: post_event_def on_slot_Some)

text \<open>
  BuildMap defers CleanEvent: the payload waits in the slot of Clean.
\<close>

theorem post_event_defer_witness:
  "\<not> eof (at_state ''BuildMap'') \<and> curstate (at_state ''BuildMap'') = Some ''BuildMap''
   \<and> events (at_state ''BuildMap'') ''CleanEvent'' = Some ''Clean''
   \<and> interrupt (the (states (at_state ''BuildMap'') ''BuildMap'')) ''CleanEvent'' = - 1
   \<and> post_event test_app ''CleanEvent'' 5 [7] (at_state ''BuildMap'') =
       Some ((at_state ''BuildMap'')
         \<lparr>states := (states (at_state ''BuildMap''))
            (''Clean'' \<mapsto> add_event ''CleanEvent'' 5 (the (states (at_state ''BuildMap'') ''Clean''))),
          waitstates := [''Clean'']\<rparr>)
   \<and> map_option curstate (post_event test_app ''CleanEvent'' 5 [7] (at_state ''BuildMap''))
       = Some (Some ''BuildMap'')
   \<and> map_option waitstates (post_event test_app ''CleanEvent'' 5 [7] (at_state ''BuildMap''))
       = Some [''Clean'']
   \<and> map_option (pending ''Clean'') (post_event test_app ''CleanEvent'' 5 [7] (at_state ''BuildMap''))
       = Some [(''CleanEvent'', Any ''CleanEvent'' 5)]
   \<and> map_option (pending ''BuildMap'') (post_event test_app ''CleanEvent'' 5 [7] (at_state ''BuildMap''))
       = Some []
   \<and> map_option (get_state ''Clean'') (post_event test_app ''CleanEvent'' 5 [7] (at_state ''BuildMap''))
       = Some None"
  using post_event_defer [of "at_state ''BuildMap''" "''BuildMap''"
      "the (states (at_state ''BuildMap'') ''BuildMap'')" "''CleanEvent''" "''Clean''"
      "the (states (at_state ''BuildMap'') ''Clean'')" test_app 5 "[7]"]
  by (simp add: example_defs interrupt_def pending_def get_state_def exist_state_def add_event_def)

text \<open>
  Claim C4, as the code has it. A forced enter of an unregistered identity
  never faults. With no active state it changes nothing; with an active state
  it leaves that state (payloads cleared, instance destroyed unless reused) and
  the machine has no active state afterwards; nothing else changes. The
  look-ups \<^verbatim>\<open>get\<close>, \<^verbatim>\<open>get_state\<close> and \<^verbatim>\<open>exist_state\<close> of the identity
  answer null.
\<close>

theorem enter_state_unregistered:
  assumes "states f T = None"
  shows "(curstate f = None \<longrightarrow> enter_state ap T ps f = Some f)
       \<and> (\<forall>c s. curstate f = Some c \<and> states f c = Some s \<longrightarrow>
            enter_state ap T ps f = Some (f\<lparr>curstate := None, states := (states f)(c \<mapsto> leave s)\<rparr>))
       \<and> get T f = None \<and> get_state T f = None \<and> \<not> exist_state T f"
  using assms
  by (auto simp: enter_state_def priv_enter_state_def on_slot_Some get_def get_state_def exist_state_def)

text \<open>
  An unregistered Dock entered on the idle machine and while BuildMap is active.
\<close>

theorem enter_state_unregistered_witness:
  "states robot ''Dock'' = None \<and> curstate robot = None
   \<and> enter_state test_app ''Dock'' [7] robot = Some robot
   \<and> states (at_state ''BuildMap'') ''Dock'' = None
   \<and> curstate (at_state ''BuildMap'') = Some ''BuildMap''
   \<and> enter_state test_app ''Dock'' [7] (at_state ''BuildMap'') =
       Some ((at_state ''BuildMap'')
         \<lparr>curstate := None,
          states := (states (at_state ''BuildMap''))
            (''BuildMap'' \<mapsto> leave (the (states (at_state ''BuildMap'') ''BuildMap'')))\<rparr>)"
  using enter_state_unregistered [of robot "''Dock''" test_app "[7]"]
    enter_state_unregistered [of "at_state ''BuildMap''" "''Dock''" test_app "[7]"]
  by (simp add: example_defs)

text \<open>
  Claim C4 as stated fails: with Recharge active, a forced enter of the
  unregistered Dock ends with no active state and without the instance of
  Recharge, and \<^verbatim>\<open>option_reuse\<close> of Dock writes through a null pointer.
\<close>

theorem enter_state_unregistered_counterexample:
  "states (at_state ''Recharge'') ''Dock'' = None
   \<and> curstate (at_state ''Recharge'') = Some ''Recharge''
   \<and> get_state ''Recharge'' (at_state ''Recharge'') = Some \<lparr>inst_id = 0, inst_args = [7]\<rparr>
   \<and> map_option curstate (enter_state quiet_app ''Dock'' [7] (at_state ''Recharge'')) = Some None
   \<and> map_option (get_state ''Recharge'') (enter_state quiet_app ''Dock'' [7] (at_state ''Recharge''))
       = Some None
   \<and> option_reuse [''Dock''] (at_state ''Recharge'') = None"
  by (simp add: example_defs engine_defs quiet_app_def get_def)

text \<open>
  Claim C5. The policy is consulted when the event is routed to a state other
  than the active one. When it answers 0 the post returns the machine as it
  was: nothing is buffered on the active slot or on the target slot, nothing
  is queued, and no application code runs.
\<close>

theorem post_event_reject:
  assumes "curstate f = Some c" "states f c = Some cs" "events f E = Some t" "t \<noteq> c"
    "interrupt cs E = 0"
  shows "post_event ap E v ps f = Some f"
  using assms by (simp add: post_event_def)

text \<open>
  Recharge blacklists CleanEvent.
\<close>

theorem post_event_reject_witness:
  "curstate (at_state ''Recharge'') = Some ''Recharge''
   \<and> events (at_state ''Recharge'') ''CleanEvent'' = Some ''Clean''
   \<and> interrupt (the (states (at_state ''Recharge'') ''Recharge'')) ''CleanEvent'' = 0
   \<and> post_event test_app ''CleanEvent'' 5 [7] (at_state ''Recharge'') = Some (at_state ''Recharge'')"
  using post_event_reject [of "at_state ''Recharge''" "''Recharge''"
      "the (states (at_state ''Recharge'') ''Recharge'')" "''CleanEvent''" "''Clean''" test_app 5 "[7]"]
  by (simp add: example_defs interrupt_def)

text \<open>
  Claim C6, as the code has it. A live machine, an active state \<open>c\<close>, an event
  routed to \<open>c\<close> or not routed at all: the post stores the payload in the slot
  of \<open>c\<close> and calls \<^verbatim>\<open>onevt\<close> on it, and does nothing else itself. When the
  slot has no instance the payload stays buffered; when the class has no
  handler the slot's payloads are dropped; otherwise the result is what the
  handler returns on the machine with the payload buffered. In the first two
  cases only the buffer of the active slot differs. In the third the active
  identity changes exactly when the handler itself drives a transition.
\<close>

theorem post_event_same_state:
  assumes "\<not> eof f" "curstate f = Some c" "states f c = Some cs"
    "events f E = Some c \<or> events f E = None"
  shows "post_event ap E v ps f =
          (case ta cs of
             None \<Rightarrow> Some (f\<lparr>states := (states f)(c \<mapsto> add_event E v cs)\<rparr>)
           | Some i \<Rightarrow>
               (case on_fsm_event ap c of
                  None \<Rightarrow> Some (f\<lparr>states := (states f)(c \<mapsto> (add_event E v cs)\<lparr>evts := []\<rparr>)\<rparr>)
                | Some h \<Rightarrow>
                    map_option (\<lambda>g. g\<lparr>waitsize := waitsize g - 1\<rparr>)
                      (h i (f\<lparr>states := (states f)(c \<mapsto> add_event E v cs),
                              waitsize := waitsize f + 1\<rparr>))))"
  using assms
  by (auto simp: post_event_def on_slot_Some onevt_def add_event_def map_option_case
      split: option.splits)

text \<open>
  Clean with a handler that takes the event; an unrouted Tick on a class
  without handler; an unrouted Tick on a slot without instance.
\<close>

theorem post_event_same_state_witness:
  "\<not> eof (at_state ''Clean'') \<and> curstate (at_state ''Clean'') = Some ''Clean''
   \<and> events (at_state ''Clean'') ''CleanEvent'' = Some ''Clean''
   \<and> events (at_state ''Clean'') ''Tick'' = None
   \<and> post_event taking_app ''CleanEvent'' 5 [7] (at_state ''Clean'') = Some (at_state ''Clean'')
   \<and> post_event quiet_app ''Tick'' 5 [7] (at_state ''Clean'') = Some (at_state ''Clean'')
   \<and> map_option curstate
        (post_event quiet_app ''Tick'' 5 [7]
          ((at_state ''Clean'')\<lparr>states := (states (at_state ''Clean''))(''Clean'' \<mapsto> new_State 1)\<rparr>))
       = Some (Some ''Clean'')
   \<and> map_option (pending ''Clean'')
        (post_event quiet_app ''Tick'' 5 [7]
          ((at_state ''Clean'')\<lparr>states := (states (at_state ''Clean''))(''Clean'' \<mapsto> new_State 1)\<rparr>))
       = Some [(''Tick'', Any ''Tick'' 5)]"
  using post_event_same_state [of "at_state ''Clean''" "''Clean''"
      "the (states (at_state ''Clean'') ''Clean'')" "''CleanEvent''" taking_app 5 "[7]"]
    post_event_same_state [of "at_state ''Clean''" "''Clean''"
      "the (states (at_state ''Clean'') ''Clean'')" "''Tick''" quiet_app 5 "[7]"]
    post_event_same_state [of
      "(at_state ''Clean'')\<lparr>states := (states (at_state ''Clean''))(''Clean'' \<mapsto> new_State 1)\<rparr>"
      "''Clean''" "new_State 1" "''Tick''" quiet_app 5 "[7]"]
  by (simp add: example_defs taking_app_def taking_program_def quiet_app_def add_event_def
      on_slot_def get_event_def pending_def fun_eq_iff)

text \<open>
  Claim C6 as stated fails: Clean is active, CleanEvent is routed to Clean,
  and the handler of the example's \<^verbatim>\<open>CleanState\<close> advances; after the post
  Recharge is active, Clean has been left and Recharge entered.
\<close>

theorem post_event_same_state_counterexample:
  "\<not> eof (at_state ''Clean'')
   \<and> curstate (at_state ''Clean'') = Some ''Clean''
   \<and> events (at_state ''Clean'') ''CleanEvent'' = Some ''Clean''
   \<and> get_state ''Clean'' (at_state ''Clean'') = Some \<lparr>inst_id = 0, inst_args = [7]\<rparr>
   \<and> get_state ''Recharge'' (at_state ''Clean'') = None
   \<and> map_option curstate (post_event test_app ''CleanEvent'' 5 [7] (at_state ''Clean''))
       = Some (Some ''Recharge'')
   \<and> map_option (get_state ''Clean'') (post_event test_app ''CleanEvent'' 5 [7] (at_state ''Clean''))
       = Some None
   \<and> map_option (get_state ''Recharge'') (post_event test_app ''CleanEvent'' 5 [7] (at_state ''Clean''))
       = Some (Some \<lparr>inst_id = 1, inst_args = [7]\<rparr>)"
  by (simp add: example_defs engine_defs test_app_def example_program_def)

text \<open>
  Claim C7. After \<^verbatim>\<open>add_event\<close> of a payload of type \<open>E\<close>, \<^verbatim>\<open>get_event<E>\<close>
  returns the payload and erases the entry, and a second call finds nothing. A
  call on a slot without an entry for \<open>E\<close> finds nothing; a call on an entry
  whose stored type is not \<open>E\<close> finds nothing and leaves the slot as it was.
\<close>

theorem get_event_round_trip:
  "get_event E (add_event E p s) = (Some p, s\<lparr>evts := AList.delete E (evts s)\<rparr>)
   \<and> get_event E (snd (get_event E (add_event E p s))) = (None, s\<lparr>evts := AList.delete E (evts s)\<rparr>)
   \<and> (map_of (evts s) E = None \<longrightarrow> get_event E s = (None, s))
   \<and> (\<forall>a. map_of (evts s) E = Some a \<and> any_type a \<noteq> E \<longrightarrow> get_event E s = (None, s))"
  by (auto simp: get_event_def add_event_def update_conv' delete_update_same delete_conv')

text \<open>A round trip on a fresh slot, and a look-up of an entry of another type.\<close>

theorem get_event_round_trip_witness:
  "get_event ''CleanEvent'' (add_event ''CleanEvent'' 5 (new_State 1)) = (Some 5, new_State 1)
   \<and> get_event ''CleanEvent'' (new_State 1) = (None, new_State 1)
   \<and> map_of (evts misused_slot) ''CleanEvent'' = Some (Any ''Point'' 3)
   \<and> get_event ''CleanEvent'' misused_slot = (None, misused_slot)"
  using get_event_round_trip [of "''CleanEvent''" 5 "new_State 1"]
    get_event_round_trip [of "''CleanEvent''" 5 misused_slot]
  by (simp add: new_State_def misused_slot_def)

text \<open>
  Claim C8. \<^verbatim>\<open>leave\<close> always empties the buffered payloads and nulls the
  instance exactly when \<^verbatim>\<open>reuse\<close> is false. For a reused slot that owns an
  instance, leaving and entering again gives the slot with the same instance
  and no payloads: \<^verbatim>\<open>enter\<close> constructs nothing and dispatches nothing.
\<close>

theorem leave_clears_and_reuse_keeps:
  "evts (leave s) = []
   \<and> ta (leave s) = (if reuse s then ta s else None)
   \<and> (\<forall>i. reuse s \<and> ta s = Some i \<and> states f n = Some s \<longrightarrow>
        on_slot n leave f = Some (f\<lparr>states := (states f)(n \<mapsto> s\<lparr>evts := []\<rparr>)\<rparr>)
        \<and> enter ap n (f\<lparr>states := (states f)(n \<mapsto> s\<lparr>evts := []\<rparr>)\<rparr>) =
            Some (f\<lparr>states := (states f)(n \<mapsto> s\<lparr>evts := []\<rparr>)\<rparr>))"
  by (simp add: leave_def on_slot_def enter_def)

text \<open>A reused slot with a pending payload, left and entered again.\<close>

theorem leave_clears_and_reuse_keeps_witness:
  "reuse reused_slot \<and> ta reused_slot = Some \<lparr>inst_id = 4, inst_args = [7]\<rparr>
   \<and> evts reused_slot \<noteq> []
   \<and> evts (leave reused_slot) = [] \<and> ta (leave reused_slot) = ta reused_slot
   \<and> ta (leave (reused_slot\<lparr>reuse := False\<rparr>)) = None
   \<and> Option.bind (on_slot ''Clean'' leave (robot\<lparr>states := (states robot)(''Clean'' \<mapsto> reused_slot)\<rparr>))
        (enter taking_app ''Clean'')
      = Some (robot\<lparr>states := (states robot)(''Clean'' \<mapsto> reused_slot\<lparr>evts := []\<rparr>)\<rparr>)"
  using leave_clears_and_reuse_keeps [of reused_slot "robot\<lparr>states := (states robot)(''Clean'' \<mapsto> reused_slot)\<rparr>" "''Clean''" taking_app]
    leave_clears_and_reuse_keeps [of "reused_slot\<lparr>reuse := False\<rparr>" robot "''Clean''" taking_app]
  by (simp add: reused_slot_def new_State_def)

text \<open>
  Claim C9. An advance whose caller is not the active state (or made while no
  state is active) returns the machine as it was: active identity, queue,
  every slot and the in-flight counter.
\<close>

theorem next_state_stale: "curstate f \<noteq> Some T \<Longrightarrow> next_state ap T ps f = Some f"
  by (cases "curstate f") (simp_all add: next_state_def)

text \<open>
  Clean advances after Recharge has taken over, and on the idle machine.
\<close>

theorem next_state_stale_witness:
  "curstate (at_state ''Recharge'') \<noteq> Some ''Clean''
   \<and> next_state test_app ''Clean'' [7] (at_state ''Recharge'') = Some (at_state ''Recharge'')
   \<and> curstate robot \<noteq> Some ''Clean''
   \<and> next_state test_app ''Clean'' [7] robot = Some robot"
  using next_state_stale [of "at_state ''Recharge''" "''Clean''" test_app "[7]"]
    next_state_stale [of robot "''Clean''" test_app "[7]"]
  by (simp add: example_defs)

text \<open>
  Claim C10. When no constructor and no handler of the application touches the
  queue, a forced enter and a slot's enter return the queue as it was, a post
  appends the target exactly when it defers and otherwise returns the queue as
  it was, and an advance drops the front entry exactly when the machine is
  live and the caller is active; hence a target at the front of the queue
  before a forced enter is the destination of the next advance made by the
  state then active. A slot's leave never touches the queue. For every
  application: whatever reflexive and transitive relation on queues its
  constructors and handlers respect, a forced enter and a slot's enter respect
  it too, a post is the push of the deferred target followed by it, and an
  advance is the pop followed by it; the engine writes the queue nowhere else.
\<close>

theorem waitstates_only_post_and_advance:
  "(keeps_queue ap \<longrightarrow>
      (\<forall>f'. enter_state ap T ps f = Some f' \<longrightarrow> waitstates f' = waitstates f)
    \<and> (\<forall>f'. enter ap n f = Some f' \<longrightarrow> waitstates f' = waitstates f)
    \<and> (\<forall>f'. post_event ap E v ps f = Some f' \<longrightarrow>
          waitstates f' =
            waitstates f @ (case deferred_target f E of None \<Rightarrow> [] | Some t \<Rightarrow> [t]))
    \<and> (\<forall>f'. next_state ap T ps f = Some f' \<longrightarrow>
          waitstates f' =
            (if \<not> eof f \<and> curstate f = Some T then tl (waitstates f) else waitstates f))
    \<and> (\<forall>t q g. waitstates f = t # q \<and> enter_state ap T ps f = Some g \<and> \<not> eof g
          \<and> curstate g = Some T \<longrightarrow>
          next_state ap T ps g =
            map_option (\<lambda>h. h\<lparr>waitsize := waitsize h - 1\<rparr>)
              (priv_enter_state ap t ps (Some T)
                 (g\<lparr>waitstates := q, waitsize := waitsize g + 1\<rparr>))))
   \<and> (\<forall>f'. on_slot n leave f = Some f' \<longrightarrow> waitstates f' = waitstates f)
   \<and> (\<forall>R. queue_respects R ap \<longrightarrow>
      (\<forall>f'. enter_state ap T ps f = Some f' \<longrightarrow> R (waitstates f) (waitstates f'))
    \<and> (\<forall>f'. enter ap n f = Some f' \<longrightarrow> R (waitstates f) (waitstates f'))
    \<and> (\<forall>f'. post_event ap E v ps f = Some f' \<longrightarrow>
          R (waitstates f @ (case deferred_target f E of None \<Rightarrow> [] | Some t \<Rightarrow> [t]))
            (waitstates f'))
    \<and> (\<forall>f'. next_state ap T ps f = Some f' \<longrightarrow>
          R (if \<not> eof f \<and> curstate f = Some T then tl (waitstates f) else waitstates f)
            (waitstates f')))"
proof (intro conjI impI allI)
  fix f'
  assume "keeps_queue ap" "enter_state ap T ps f = Some f'"
  then show "waitstates f' = waitstates f"
    unfolding enter_state_def by (rule priv_enter_state_queue)
next
  fix f'
  assume "keeps_queue ap" "enter ap n f = Some f'"
  then show "waitstates f' = waitstates f" by (rule enter_queue)
next
  fix f'
  assume "keeps_queue ap" "post_event ap E v ps f = Some f'"
  then show "waitstates f' =
      waitstates f @ (case deferred_target f E of None \<Rightarrow> [] | Some t \<Rightarrow> [t])"
    by (rule post_event_queue)
next
  fix f'
  assume "keeps_queue ap" "next_state ap T ps f = Some f'"
  then show "waitstates f' =
      (if \<not> eof f \<and> curstate f = Some T then tl (waitstates f) else waitstates f)"
    by (rule next_state_queue)
next
  fix t q g
  assume k: "keeps_queue ap"
    and h: "waitstates f = t # q \<and> enter_state ap T ps f = Some g \<and> \<not> eof g \<and> curstate g = Some T"
  from h have "priv_enter_state ap T ps None f = Some g" by (simp add: enter_state_def)
  from priv_enter_state_queue [OF k this] h have "waitstates g = t # q" by simp
  with h show "next_state ap T ps g =
      map_option (\<lambda>h. h\<lparr>waitsize := waitsize h - 1\<rparr>)
        (priv_enter_state ap t ps (Some T) (g\<lparr>waitstates := q, waitsize := waitsize g + 1\<rparr>))"
    by (simp add: next_state_front)
next
  fix f'
  assume "on_slot n leave f = Some f'"
  then show "waitstates f' = waitstates f" by (rule on_slot_queue)
next
  fix R f'
  assume "queue_respects R ap" "enter_state ap T ps f = Some f'"
  then show "R (waitstates f) (waitstates f')"
    unfolding enter_state_def by (rule priv_enter_state_respects)
next
  fix R f'
  assume "queue_respects R ap" "enter ap n f = Some f'"
  then show "R (waitstates f) (waitstates f')" by (rule enter_respects)
next
  fix R f'
  assume "queue_respects R ap" "post_event ap E v ps f = Some f'"
  then show "R (waitstates f @ (case deferred_target f E of None \<Rightarrow> [] | Some t \<Rightarrow> [t]))
      (waitstates f')"
    by (rule post_event_respects)
next
  fix R f'
  assume "queue_respects R ap" "next_state ap T ps f = Some f'"
  then show "R (if \<not> eof f \<and> curstate f = Some T then tl (waitstates f) else waitstates f)
      (waitstates f')"
    by (rule next_state_respects)
qed

text \<open>
  BuildMap defers CleanEvent, Ready is entered by force, and Ready's advance
  goes to Clean instead of its successor BuildMap.
\<close>

theorem waitstates_only_post_and_advance_witness:
  "keeps_queue quiet_app
   \<and> queue_respects (=) quiet_app
   \<and> deferred_target (at_state ''BuildMap'') ''CleanEvent'' = Some ''Clean''
   \<and> map_option waitstates (post_event quiet_app ''CleanEvent'' 5 [7] (at_state ''BuildMap''))
       = Some [''Clean'']
   \<and> map_option waitstates
        (Option.bind (post_event quiet_app ''CleanEvent'' 5 [7] (at_state ''BuildMap''))
          (enter_state quiet_app ''Ready'' [7]))
       = Some [''Clean'']
   \<and> map_option curstate
        (Option.bind (post_event quiet_app ''CleanEvent'' 5 [7] (at_state ''BuildMap''))
          (enter_state quiet_app ''Ready'' [7]))
       = Some (Some ''Ready'')
   \<and> map_option nextstate (states (at_state ''BuildMap'') ''Ready'') = Some ''BuildMap''
   \<and> map_option curstate
        (Option.bind
          (Option.bind (post_event quiet_app ''CleanEvent'' 5 [7] (at_state ''BuildMap''))
            (enter_state quiet_app ''Ready'' [7]))
          (next_state quiet_app ''Ready'' [7]))
       = Some (Some ''Clean'')
   \<and> map_option waitstates
        (Option.bind
          (Option.bind (post_event quiet_app ''CleanEvent'' 5 [7] (at_state ''BuildMap''))
            (enter_state quiet_app ''Ready'' [7]))
          (next_state quiet_app ''Ready'' [7]))
       = Some []"
  using waitstates_only_post_and_advance [of quiet_app "''Ready''" "[7]"
      "at_state ''BuildMap''" "''BuildMap''" "''CleanEvent''" 5]
  by (simp add: keeps_queue_def queue_respects_def quiet_app_def example_defs engine_defs
      deferred_target_def)

end
